theory Spec2Isabelle
  imports Complex_Main "HOL-Library.Multiset" "HOL-Library.Log_Nat"
begin

section \<open>Python floats\<close>

text \<open>
  The player keeps its volume as a Python \<^verbatim>\<open>float\<close> (IEEE 754 binary64). A float is
  modelled by the rational number it denotes; an arithmetic operation computes the exact
  result and rounds it to the nearest number with a 53 bit significand, ties to even.
  The rounding below is the one of binary64 for results whose magnitude lies in the normal
  range (between \<open>2 powi (-1022)\<close> and \<open>2 powi 1024\<close>). Every value the player computes is
  a percentage between 0 and 200 or a hundredth of one, far inside this range.
\<close>

definition round_half_even :: "rat \<Rightarrow> int" where
  "round_half_even y =
     (let f = \<lfloor>y\<rfloor>; d = y - of_int f
      in if d < 1 / 2 then f else if 1 / 2 < d then f + 1 else if even f then f else f + 1)"

text \<open>The exponent \<open>e\<close> of a positive number: \<open>2 powi e \<le> a < 2 powi (e + 1)\<close>.\<close>

definition binade :: "rat \<Rightarrow> int" where
  "binade a =
     (let (p, q) = quotient_of a; k = bitlen p - bitlen q
      in if 2 powi k \<le> a then k else k - 1)"

definition to_double :: "rat \<Rightarrow> rat" where
  "to_double x =
     (if x = 0 then 0
      else let a = \<bar>x\<bar>; e = binade a;
               m = round_half_even (a * 2 powi (52 - e))
           in sgn x * of_int m * 2 powi (e - 52))"

text \<open>\<^verbatim>\<open>x / y\<close> and \<^verbatim>\<open>x * y\<close> on floats (an \<^verbatim>\<open>int\<close> operand is converted first; the
  integers of this program are below \<open>2 ^ 53\<close> and convert exactly).\<close>

definition float_div :: "rat \<Rightarrow> rat \<Rightarrow> rat" where
  "float_div x y = to_double (x / y)"

definition float_mul :: "rat \<Rightarrow> rat \<Rightarrow> rat" where
  "float_mul x y = to_double (x * y)"

text \<open>\<^verbatim>\<open>int(x)\<close> on a float truncates towards zero.\<close>

definition py_int :: "rat \<Rightarrow> int" where
  "py_int x = (if 0 \<le> x then \<lfloor>x\<rfloor> else \<lceil>x\<rceil>)"

text \<open>
  \<^verbatim>\<open>def clamp(x, lo, hi): return lo if x < lo else hi if x > hi else x\<close>.
  The player calls it on integers only, where \<^verbatim>\<open>int(clamp(...))\<close> is the identity.
\<close>

definition clamp :: "int \<Rightarrow> int \<Rightarrow> int \<Rightarrow> int" where
  "clamp x lo hi = (if x < lo then lo else if hi < x then hi else x)"


section \<open>Tracks and the player of one guild\<close>

record Track =
  title :: string
  url :: string
  web_url :: string
  duration :: rat
  requested_by :: string

text \<open>
  The transport is the voice client of the chat library, which is not part of the
  repository. The record keeps what the player reads of it: \<^verbatim>\<open>is_connected()\<close>,
  \<^verbatim>\<open>is_playing()\<close>, \<^verbatim>\<open>is_paused()\<close>, the member ids of \<^verbatim>\<open>channel\<close> (\<open>None\<close> when the
  client has no channel), and the loop task whose \<^verbatim>\<open>finished\<close> event the \<^verbatim>\<open>after\<close>
  callback of the stream being played sets.
\<close>

record VoiceClient =
  connected :: bool
  playing :: bool
  paused :: bool
  members :: "nat list option"
  after :: "nat option"

text \<open>The \<^verbatim>\<open>PCMVolumeTransformer\<close> wrapped around the decoded stream of a track.\<close>

record PCM =
  source :: string
  pcm_volume :: rat

text \<open>
  A playback loop is an asyncio task running \<^verbatim>\<open>_player_loop\<close>. Between two runs it is
  suspended at one of the \<^verbatim>\<open>await\<close>s of the coroutine; \<open>NotStarted\<close> is the task that
  \<^verbatim>\<open>create_task\<close> has scheduled and that has not run yet, \<open>Done\<close> the task that returned.
\<close>

datatype suspension =
    NotStarted
  | AttachFailedYield
  | Announcing
  | Racing
  | Pacing
  | Disconnecting
  | Done

record LoopTask =
  pos :: suspension
  finished :: bool

text \<open>
  The fields of \<^verbatim>\<open>GuildPlayer\<close>. \<open>tasks\<close> holds every task the player has created, in
  creation order; \<open>play_task\<close> (\<^verbatim>\<open>_play_task\<close>) is the index of the task the handle refers
  to. \<open>bot_user\<close> is the id of \<^verbatim>\<open>bot.user\<close>.
\<close>

record GuildPlayer =
  bot_user :: "nat option"
  queue :: "Track list"
  current :: "Track option"
  voice :: "VoiceClient option"
  play_task :: "nat option"
  tasks :: "LoopTask list"
  stop_event :: bool
  started_at :: "rat option"
  volume :: rat
  pcm :: "PCM option"
  last_nonzero_volume :: rat
  announce_channel :: "nat option"

definition new_player :: "nat option \<Rightarrow> GuildPlayer" where
  "new_player u =
     \<lparr>bot_user = u, queue = [], current = None, voice = None, play_task = None,
      tasks = [], stop_event = False, started_at = None, volume = 1, pcm = None,
      last_nonzero_volume = 1, announce_channel = None\<rparr>"


section \<open>Volume\<close>

definition set_volume_percent :: "int \<Rightarrow> GuildPlayer \<Rightarrow> int \<times> GuildPlayer" where
  "set_volume_percent percent s =
     (let pct = clamp percent 0 200;
          s1 = s\<lparr>volume := float_div (of_int pct) 100\<rparr>;
          s2 = (if 0 < volume s1 then s1\<lparr>last_nonzero_volume := volume s1\<rparr> else s1);
          s3 = (case pcm s2 of
                  None \<Rightarrow> s2
                | Some p \<Rightarrow> s2\<lparr>pcm := Some (p\<lparr>pcm_volume := volume s2\<rparr>)\<rparr>)
      in (pct, s3))"

definition mute :: "GuildPlayer \<Rightarrow> GuildPlayer" where
  "mute s =
     (let s1 = (if 0 < volume s then s\<lparr>last_nonzero_volume := volume s\<rparr> else s)
      in snd (set_volume_percent 0 s1))"

definition unmute :: "GuildPlayer \<Rightarrow> int \<times> GuildPlayer" where
  "unmute s =
     (let target = (if 0 < last_nonzero_volume s then last_nonzero_volume s else 1)
      in set_volume_percent (py_int (float_mul target 100)) s)"


section \<open>Queue operations\<close>

text \<open>\<^verbatim>\<open>_play_task.done()\<close> for the task with index \<open>i\<close>.\<close>

definition task_done :: "GuildPlayer \<Rightarrow> nat \<Rightarrow> bool" where
  "task_done s i = (i < length (tasks s) \<and> pos (tasks s ! i) = Done)"

text \<open>\<^verbatim>\<open>not self._play_task or self._play_task.done()\<close>\<close>

definition no_loop_running :: "GuildPlayer \<Rightarrow> bool" where
  "no_loop_running s = (case play_task s of None \<Rightarrow> True | Some i \<Rightarrow> task_done s i)"

text \<open>
  \<^verbatim>\<open>add\<close> has no \<^verbatim>\<open>await\<close> in its body: it runs without interruption. The task that
  \<^verbatim>\<open>create_task\<close> returns starts to run at a later turn of the event loop.
\<close>

definition add :: "Track \<Rightarrow> GuildPlayer \<Rightarrow> GuildPlayer" where
  "add track s =
     (let s1 = s\<lparr>queue := queue s @ [track]\<rparr>
      in if no_loop_running s1
         then s1\<lparr>stop_event := False,
                 tasks := tasks s1 @ [\<lparr>pos = NotStarted, finished = False\<rparr>],
                 play_task := Some (length (tasks s1))\<rparr>
         else s1)"

text \<open>The \<^verbatim>\<open>after\<close> callback of the stream being played: \<^verbatim>\<open>finished.set()\<close>.\<close>

definition update_task :: "nat \<Rightarrow> (LoopTask \<Rightarrow> LoopTask) \<Rightarrow> GuildPlayer \<Rightarrow> GuildPlayer" where
  "update_task tid f s = s\<lparr>tasks := (tasks s)[tid := f (tasks s ! tid)]\<rparr>"

definition call_after :: "VoiceClient \<Rightarrow> GuildPlayer \<Rightarrow> GuildPlayer" where
  "call_after v s =
     (case after v of
        None \<Rightarrow> s
      | Some tid \<Rightarrow> update_task tid (\<lambda>x. x\<lparr>finished := True\<rparr>) s)"

text \<open>
  Modelled from the spec: \<^verbatim>\<open>StreamHandle.Stop()\<close> of the transport, which the repository
  does not contain. The stream stops at once and its completion callback is called.
\<close>

definition voice_stop :: "VoiceClient \<Rightarrow> GuildPlayer \<Rightarrow> GuildPlayer" where
  "voice_stop v s = call_after v (s\<lparr>voice := Some (v\<lparr>playing := False, paused := False\<rparr>)\<rparr>)"

definition skip :: "GuildPlayer \<Rightarrow> GuildPlayer" where
  "skip s =
     (let s1 = (case voice s of
                  None \<Rightarrow> s
                | Some v \<Rightarrow> if playing v then voice_stop v s else s)
      in s1\<lparr>stop_event := True\<rparr>)"

definition clear_queue :: "GuildPlayer \<Rightarrow> GuildPlayer" where
  "clear_queue s = s\<lparr>queue := []\<rparr>"

text \<open>The command \<^verbatim>\<open>stop\<close> of the cog: \<^verbatim>\<open>player.queue.clear()\<close>, then \<^verbatim>\<open>player.skip()\<close>.\<close>

definition stop :: "GuildPlayer \<Rightarrow> GuildPlayer" where
  "stop s = skip (s\<lparr>queue := []\<rparr>)"

text \<open>
  \<^verbatim>\<open>random.shuffle\<close> of the standard library walks \<open>i\<close> from the last index down to 1 and
  swaps \<open>x[i]\<close> with \<open>x[j]\<close>, \<open>j = randbelow(i + 1)\<close>. The random source is a parameter
  \<open>rnd\<close>: the number drawn at step \<open>i\<close> is \<open>rnd i mod (i + 1)\<close>.
\<close>

fun random_shuffle :: "(nat \<Rightarrow> nat) \<Rightarrow> nat \<Rightarrow> 'a list \<Rightarrow> 'a list" where
  "random_shuffle rnd 0 xs = xs"
| "random_shuffle rnd (Suc i) xs =
     (let j = rnd (Suc i) mod (Suc i + 1)
      in random_shuffle rnd i (xs[Suc i := xs ! j, j := xs ! Suc i]))"

definition shuffle :: "(nat \<Rightarrow> nat) \<Rightarrow> GuildPlayer \<Rightarrow> GuildPlayer" where
  "shuffle rnd s =
     (if queue s = [] then s
      else s\<lparr>queue := random_shuffle rnd (length (queue s) - 1) (queue s)\<rparr>)"

text \<open>
  The command \<^verbatim>\<open>remove\<close> of the cog. It answers an index out of range with the reply
  \<^verbatim>\<open>Invalid index. Queue has n item(s).\<close> and returns; otherwise it pops the item from a
  copy of the queue, stores the copy and reports the removed track.
\<close>

datatype error = InvalidIndex nat

definition remove :: "int \<Rightarrow> GuildPlayer \<Rightarrow> (error + Track) \<times> GuildPlayer" where
  "remove index s =
     (let q_len = length (queue s)
      in if index < 1 \<or> int q_len < index then (Inl (InvalidIndex q_len), s)
         else let k = nat (index - 1)
              in (Inr (queue s ! k), s\<lparr>queue := take k (queue s) @ drop (Suc k) (queue s)\<rparr>))"

definition pause :: "GuildPlayer \<Rightarrow> bool \<times> GuildPlayer" where
  "pause s =
     (case voice s of
        None \<Rightarrow> (False, s)
      | Some v \<Rightarrow>
          if playing v then (True, s\<lparr>voice := Some (v\<lparr>playing := False, paused := True\<rparr>)\<rparr>)
          else (False, s))"

definition resume :: "GuildPlayer \<Rightarrow> bool \<times> GuildPlayer" where
  "resume s =
     (case voice s of
        None \<Rightarrow> (False, s)
      | Some v \<Rightarrow>
          if paused v then (True, s\<lparr>voice := Some (v\<lparr>playing := True, paused := False\<rparr>)\<rparr>)
          else (False, s))"


section \<open>The playback loop\<close>

definition others_in_channel_count :: "GuildPlayer \<Rightarrow> nat" where
  "others_in_channel_count s =
     (case voice s of
        None \<Rightarrow> 0
      | Some v \<Rightarrow>
          (case members v of
             None \<Rightarrow> 0
           | Some ms \<Rightarrow>
               (case bot_user s of
                  None \<Rightarrow> 0
                | Some b \<Rightarrow> length (filter (\<lambda>m. m \<noteq> b) ms))))"

definition channel_empty_excluding_self :: "GuildPlayer \<Rightarrow> bool" where
  "channel_empty_excluding_self s = (others_in_channel_count s = 0)"

text \<open>\<^verbatim>\<open>self.voice and self.voice.is_connected()\<close>\<close>

definition voice_connected :: "GuildPlayer \<Rightarrow> bool" where
  "voice_connected s = (case voice s of None \<Rightarrow> False | Some v \<Rightarrow> connected v)"

text \<open>The last three assignments of \<^verbatim>\<open>_player_loop\<close>, after which the task has returned.\<close>

definition finish :: "nat \<Rightarrow> GuildPlayer \<Rightarrow> GuildPlayer" where
  "finish tid s =
     update_task tid (\<lambda>x. x\<lparr>pos := Done\<rparr>) (s\<lparr>current := None, started_at := None, pcm := None\<rparr>)"

text \<open>
  The code after the \<^verbatim>\<open>while\<close> loop. \<^verbatim>\<open>await self.voice.disconnect()\<close> suspends the task;
  the three assignments follow when it resumes.
\<close>

definition cleanup :: "nat \<Rightarrow> GuildPlayer \<Rightarrow> GuildPlayer" where
  "cleanup tid s =
     (if channel_empty_excluding_self s \<and> voice_connected s
      then update_task tid (\<lambda>x. x\<lparr>pos := Disconnecting\<rparr>) s
      else finish tid s)"

text \<open>
  Modelled from the spec: \<^verbatim>\<open>AttachStream(source, initialVolume) -> StreamHandle\<close> of the
  transport, which the repository does not contain. It has no error result: the stream
  starts to play, and its completion callback is the one of the task that attached it.
\<close>

definition voice_play :: "nat \<Rightarrow> VoiceClient \<Rightarrow> VoiceClient" where
  "voice_play tid v = v\<lparr>playing := True, paused := False, after := Some tid\<rparr>"

text \<open>
  One pass from the test of the \<^verbatim>\<open>while\<close> loop to the next \<^verbatim>\<open>await\<close>. \<open>open_ok\<close> tells
  whether the decoded stream could be opened (the \<^verbatim>\<open>try\<close> block around \<^verbatim>\<open>FFmpegPCMAudio\<close>
  and \<^verbatim>\<open>PCMVolumeTransformer\<close> raised nothing) and \<open>now\<close> is \<^verbatim>\<open>time.monotonic()\<close>. The
  \<^verbatim>\<open>finished\<close> event is created anew for every track.
\<close>

definition loop_top :: "nat \<Rightarrow> bool \<Rightarrow> rat \<Rightarrow> GuildPlayer \<Rightarrow> GuildPlayer" where
  "loop_top tid open_ok now s =
     (case queue s of
        [] \<Rightarrow> cleanup tid s
      | t # q \<Rightarrow>
          if channel_empty_excluding_self s then cleanup tid s
          else
            let s1 = s\<lparr>queue := q, current := Some t, started_at := None\<rparr>
            in (case voice s1 of
                  None \<Rightarrow> cleanup tid s1
                | Some v \<Rightarrow>
                    if \<not> connected v then cleanup tid s1
                    else if \<not> open_ok
                    then update_task tid (\<lambda>x. x\<lparr>pos := AttachFailedYield\<rparr>) (s1\<lparr>current := None\<rparr>)
                    else
                      let s2 = s1\<lparr>pcm := Some \<lparr>source = url t, pcm_volume = volume s1\<rparr>\<rparr>;
                          s3 = update_task tid (\<lambda>x. x\<lparr>finished := False\<rparr>) s2;
                          s4 = s3\<lparr>voice := Some (voice_play tid v), started_at := Some now\<rparr>
                      in if announce_channel s4 \<noteq> None
                         then update_task tid (\<lambda>x. x\<lparr>pos := Announcing\<rparr>) s4
                         else update_task tid (\<lambda>x. x\<lparr>pos := Racing\<rparr>) s4))"

text \<open>
  Modelled from the spec: \<^verbatim>\<open>Disconnect()\<close> of the transport, which the repository does
  not contain. The client is no longer connected and plays nothing.
\<close>

definition voice_disconnect :: "GuildPlayer \<Rightarrow> GuildPlayer" where
  "voice_disconnect s =
     (case voice s of
        None \<Rightarrow> s
      | Some v \<Rightarrow> s\<lparr>voice := Some (v\<lparr>connected := False, playing := False, paused := False\<rparr>)\<rparr>)"

text \<open>
  The event loop resumes task \<open>tid\<close>, which runs to its next \<^verbatim>\<open>await\<close>. A task waiting in
  \<^verbatim>\<open>asyncio.wait({w1, w2}, return_when=FIRST_COMPLETED)\<close> resumes only when the \<^verbatim>\<open>finished\<close>
  event of its track or the stop event is set. Sending the announcement may fail; the
  loop swallows the exception, so both outcomes continue alike.
\<close>

definition run_loop :: "nat \<Rightarrow> bool \<Rightarrow> rat \<Rightarrow> GuildPlayer \<Rightarrow> GuildPlayer" where
  "run_loop tid open_ok now s =
     (if length (tasks s) \<le> tid then s
      else case pos (tasks s ! tid) of
        NotStarted \<Rightarrow> loop_top tid open_ok now s
      | AttachFailedYield \<Rightarrow> loop_top tid open_ok now s
      | Announcing \<Rightarrow> update_task tid (\<lambda>x. x\<lparr>pos := Racing\<rparr>) s
      | Racing \<Rightarrow>
          if finished (tasks s ! tid) \<or> stop_event s
          then update_task tid (\<lambda>x. x\<lparr>pos := Pacing\<rparr>) (s\<lparr>stop_event := False, pcm := None\<rparr>)
          else s
      | Pacing \<Rightarrow> loop_top tid open_ok now s
      | Disconnecting \<Rightarrow> finish tid (voice_disconnect s)
      | Done \<Rightarrow> s)"


text \<open>The conditions under which a pass from the test of the \<^verbatim>\<open>while\<close> loop leaves the loop: the
  queue is empty, nobody else is in the channel, or the transport is not connected.\<close>

definition loop_exits :: "GuildPlayer \<Rightarrow> bool" where
  "loop_exits s = (queue s = [] \<or> channel_empty_excluding_self s \<or> \<not> voice_connected s)"


section \<open>Interleavings\<close>

text \<open>
  All tasks run on one thread, so between two \<^verbatim>\<open>await\<close>s nothing else touches the player.
  An execution is a sequence of events: a call of one of the player's operations, a run of
  a loop task up to its next \<^verbatim>\<open>await\<close>, or a change in the transport (the stream being
  played ends, the members of the channel change, the connection is lost, the player
  is given a new connected client).
\<close>

datatype event =
    Add Track
  | Skip
  | Stop
  | Shuffle "nat \<Rightarrow> nat"
  | ClearQueue
  | Remove int
  | SetVolumePercent int
  | Mute
  | Unmute
  | Pause
  | Resume
  | SetAnnounce "nat option"
  | RunLoop nat bool rat
  | StreamEnds
  | MembersChange "nat list option"
  | ConnectionLost
  | NewVoice "nat list option"

definition stream_ends :: "GuildPlayer \<Rightarrow> GuildPlayer" where
  "stream_ends s =
     (case voice s of
        None \<Rightarrow> s
      | Some v \<Rightarrow>
          if playing v then call_after v (s\<lparr>voice := Some (v\<lparr>playing := False\<rparr>)\<rparr>) else s)"

definition members_change :: "nat list option \<Rightarrow> GuildPlayer \<Rightarrow> GuildPlayer" where
  "members_change ms s =
     (case voice s of None \<Rightarrow> s | Some v \<Rightarrow> s\<lparr>voice := Some (v\<lparr>members := ms\<rparr>)\<rparr>)"

definition new_voice :: "nat list option \<Rightarrow> GuildPlayer \<Rightarrow> GuildPlayer" where
  "new_voice ms s =
     s\<lparr>voice := Some \<lparr>connected = True, playing = False, paused = False, members = ms,
                      after = None\<rparr>\<rparr>"

fun step :: "event \<Rightarrow> GuildPlayer \<Rightarrow> GuildPlayer" where
  "step (Add t) s = add t s"
| "step Skip s = skip s"
| "step Stop s = stop s"
| "step (Shuffle rnd) s = shuffle rnd s"
| "step ClearQueue s = clear_queue s"
| "step (Remove i) s = snd (remove i s)"
| "step (SetVolumePercent p) s = snd (set_volume_percent p s)"
| "step Mute s = mute s"
| "step Unmute s = snd (unmute s)"
| "step Pause s = snd (pause s)"
| "step Resume s = snd (resume s)"
| "step (SetAnnounce c) s = s\<lparr>announce_channel := c\<rparr>"
| "step (RunLoop tid open_ok now) s = run_loop tid open_ok now s"
| "step StreamEnds s = stream_ends s"
| "step (MembersChange ms) s = members_change ms s"
| "step ConnectionLost s = voice_disconnect s"
| "step (NewVoice ms) s = new_voice ms s"

fun exec :: "event list \<Rightarrow> GuildPlayer \<Rightarrow> GuildPlayer" where
  "exec [] s = s"
| "exec (e # es) s = exec es (step e s)"

text \<open>The loop tasks of a player that have not returned yet.\<close>

definition alive :: "LoopTask \<Rightarrow> bool" where
  "alive t = (pos t \<noteq> Done)"

definition alive_loops :: "GuildPlayer \<Rightarrow> nat" where
  "alive_loops s = length (filter alive (tasks s))"


text \<open>
  Every task but the one the handle \<^verbatim>\<open>_play_task\<close> refers to has returned.
\<close>

definition handle_inv :: "GuildPlayer \<Rightarrow> bool" where
  "handle_inv s = (\<forall>j<length (tasks s). play_task s \<noteq> Some j \<longrightarrow> pos (tasks s ! j) = Done)"


section \<open>Example data\<close>

definition example_track :: "string \<Rightarrow> rat \<Rightarrow> Track" where
  "example_track name secs =
     \<lparr>title = name, url = ''stream/'' @ name, web_url = ''watch/'' @ name, duration = secs,
      requested_by = ''listener''\<rparr>"


definition example_player :: "Track list \<Rightarrow> GuildPlayer" where
  "example_player q = (new_player (Some 0))\<lparr>queue := q\<rparr>"


definition alone_player :: GuildPlayer where
  "alone_player = exec [NewVoice (Some [0]), Add (example_track ''A'' 180)] (new_player (Some 0))"

definition drained_player :: GuildPlayer where
  "drained_player =
     exec [NewVoice (Some [0, 7]), Add (example_track ''A'' 180), ClearQueue] (new_player (Some 0))"


definition two_track_player :: GuildPlayer where
  "two_track_player =
     exec [NewVoice (Some [0, 7]), Add (example_track ''A'' 180), Add (example_track ''B'' 200)]
       (new_player (Some 0))"

definition pacing_player :: GuildPlayer where
  "pacing_player = exec [RunLoop 0 True 10, StreamEnds, RunLoop 0 True 20] two_track_player"


definition racing_player :: GuildPlayer where
  "racing_player = exec [RunLoop 0 True 10] two_track_player"


section \<open>Properties of the float model\<close>

lemma binade_lower: "0 < a \<Longrightarrow> 2 powi binade a \<le> a"
proof -
  assume a: "0 < a"
  obtain p q where pq: "quotient_of a = (p, q)" by (cases "quotient_of a")
  have q: "0 < q" using pq quotient_of_denom_pos by blast
  have aeq: "a = of_int p / of_int q" using pq quotient_of_div by blast
  have p: "0 < p" using a q aeq by (simp add: zero_less_divide_iff)
  let ?k = "bitlen p - bitlen q"
  have bp: "1 \<le> bitlen p" using p by (simp add: bitlen_alt_def)
  have bq: "1 \<le> bitlen q" using q by (simp add: bitlen_alt_def)
  have lo: "(2::int) ^ nat (bitlen p - 1) \<le> p" using bitlen_bounds[OF p] by simp
  have hi: "q < (2::int) ^ nat (bitlen q)" using bitlen_bounds[OF q] by simp
  have lo': "(2::rat) powi (bitlen p - 1) \<le> of_int p"
  proof -
    have "(of_int ((2::int) ^ nat (bitlen p - 1)) :: rat) \<le> of_int p"
      using lo by (simp only: of_int_le_iff)
    then show ?thesis using bp by (simp add: power_int_def)
  qed
  have hi': "(of_int q :: rat) \<le> 2 powi bitlen q"
  proof -
    have "(of_int q :: rat) < of_int ((2::int) ^ nat (bitlen q))"
      using hi by (simp only: of_int_less_iff)
    then show ?thesis using bq by (simp add: power_int_def)
  qed
  have "(2::rat) powi (?k - 1) = 2 powi (bitlen p - 1) / 2 powi bitlen q"
    by (simp add: power_int_diff)
  also have "\<dots> \<le> of_int p / of_int q"
    using lo' hi' q p by (intro frac_le) auto
  finally have "(2::rat) powi (?k - 1) \<le> a" using aeq by simp
  then show ?thesis using pq by (simp add: binade_def Let_def)
qed

lemma round_half_even_ge: "\<lfloor>y\<rfloor> \<le> round_half_even y"
  by (simp add: round_half_even_def Let_def)

lemma round_half_even_error: "\<bar>of_int (round_half_even y) - y\<bar> \<le> 1 / 2"
proof -
  define f where "f = \<lfloor>y\<rfloor>"
  define d where "d = y - of_int f"
  have d: "0 \<le> d" "d < 1" unfolding d_def f_def by linarith+
  have y: "y = of_int f + d" by (simp add: d_def)
  have r: "round_half_even y =
      (if d < 1 / 2 then f else if 1 / 2 < d then f + 1 else if even f then f else f + 1)"
    by (simp add: round_half_even_def Let_def f_def d_def)
  show ?thesis unfolding r using d y by (auto simp: abs_if)
qed

lemma to_double_zero: "to_double 0 = 0"
  by (simp add: to_double_def)

lemma to_double_pos: "0 < x \<Longrightarrow> 0 < to_double x"
proof -
  assume x: "0 < x"
  let ?e = "binade x"
  have "(2::rat) powi 52 = 2 powi ?e * 2 powi (52 - ?e)"
    by (simp add: power_int_diff)
  also have "\<dots> \<le> x * 2 powi (52 - ?e)"
    using binade_lower[OF x] by (intro mult_right_mono) auto
  finally have "(1::rat) \<le> x * 2 powi (52 - ?e)" by simp
  then have "1 \<le> \<lfloor>x * 2 powi (52 - ?e)\<rfloor>" by (simp add: le_floor_iff)
  then have m: "0 < round_half_even (x * 2 powi (52 - ?e))"
    using round_half_even_ge[of "x * 2 powi (52 - ?e)"] by linarith
  have "0 < (of_int (round_half_even (x * 2 powi (52 - ?e))) :: rat) * 2 powi (?e - 52)"
    using m by (intro mult_pos_pos) auto
  then show ?thesis using x by (simp add: to_double_def Let_def)
qed

text \<open>The result of an operation is within half a unit in the last place of the exact one.\<close>

lemma to_double_error: "0 < x \<Longrightarrow> \<bar>to_double x - x\<bar> \<le> x / 2 ^ 53"
proof -
  assume x: "0 < x"
  let ?e = "binade x"
  let ?y = "x * 2 powi (52 - ?e)"
  let ?m = "round_half_even ?y"
  have xy: "x = ?y * 2 powi (?e - 52)"
    by (simp add: power_int_diff)
  have td: "to_double x = of_int ?m * 2 powi (?e - 52)"
    using x by (simp add: to_double_def Let_def)
  have "to_double x - x = (of_int ?m - ?y) * 2 powi (?e - 52)"
    by (subst td, subst (2) xy) (simp only: left_diff_distrib)
  then have "\<bar>to_double x - x\<bar> = \<bar>of_int ?m - ?y\<bar> * 2 powi (?e - 52)"
    by (simp add: abs_mult)
  also have "\<dots> \<le> (1 / 2) * 2 powi (?e - 52)"
    using round_half_even_error[of ?y] by (intro mult_right_mono) auto
  also have "\<dots> = 2 powi ?e / 2 ^ 53"
    by (simp add: power_int_diff)
  also have "\<dots> \<le> x / 2 ^ 53"
    using binade_lower[OF x] by (simp add: divide_right_mono)
  finally show ?thesis .
qed

lemma float_div_pos_iff: "0 \<le> n \<Longrightarrow> 0 < float_div (of_int n) 100 \<longleftrightarrow> 0 < n"
  using to_double_pos[of "of_int n / 100"]
  by (cases "n = 0") (auto simp: float_div_def to_double_zero)

lemma float_div_error:
  "0 \<le> n \<Longrightarrow> \<bar>float_div (of_int n) 100 - of_int n / 100\<bar> \<le> (of_int n / 100) / 2 ^ 53"
  using to_double_error[of "of_int n / 100"]
  by (cases "n = 0") (auto simp: float_div_def to_double_zero)

text \<open>Python prints these as \<^verbatim>\<open>0.29\<close>, \<^verbatim>\<open>0.28\<close> and, for \<^verbatim>\<open>0.29 * 100\<close>, \<^verbatim>\<open>28.999999999999996\<close>.\<close>

lemma float_div_29: "float_div 29 100 = 5224175567749775 / 18014398509481984"
  by code_simp

lemma float_div_28: "float_div 28 100 = 1261007895663739 / 4503599627370496"
  by code_simp

lemma float_div_0: "float_div 0 100 = 0"
  by (simp add: float_div_def to_double_zero)

lemma float_div_200: "float_div 200 100 = 2"
  by code_simp

lemma float_mul_29: "float_mul (5224175567749775 / 18014398509481984) 100
    = 8162774324609023 / 281474976710656"
  by code_simp

lemma py_int_29: "py_int (8162774324609023 / 281474976710656) = 28"
  by code_simp


section \<open>Volume\<close>

lemma set_volume_percent_eq:
  "set_volume_percent p s =
     (clamp p 0 200,
      s\<lparr>volume := float_div (of_int (clamp p 0 200)) 100,
        last_nonzero_volume :=
          (if 0 < clamp p 0 200 then float_div (of_int (clamp p 0 200)) 100
           else last_nonzero_volume s),
        pcm := map_option (\<lambda>t. t\<lparr>pcm_volume := float_div (of_int (clamp p 0 200)) 100\<rparr>)
                 (pcm s)\<rparr>)"
proof -
  have "0 \<le> clamp p 0 200" by (simp add: clamp_def)
  then show ?thesis
    by (cases "pcm s") (simp_all add: set_volume_percent_def Let_def float_div_pos_iff)
qed

text \<open>
  C4. For every integer \<open>p\<close>, \<^verbatim>\<open>set_volume_percent(p)\<close> returns \<open>p\<close> clamped to 0..200;
  the stored volume is the float quotient of the clamped percent by 100, which is within
  half a unit in the last place of the exact quotient; the retained last non-zero volume
  becomes the new volume when the clamped percent is positive and keeps its value when it
  is zero; an attached stream gets the new volume and no stream is created when none is
  attached; no other field changes. \<^verbatim>\<open>set_volume_percent(250)\<close> returns 200 and stores 2.
\<close>

theorem set_volume_percent_correct:
  fixes p :: int and s :: GuildPlayer
  defines "r \<equiv> fst (set_volume_percent p s)"
  defines "s' \<equiv> snd (set_volume_percent p s)"
  shows "r = max 0 (min 200 p)
    \<and> volume s' = float_div (of_int r) 100
    \<and> \<bar>volume s' - of_int r / 100\<bar> \<le> (of_int r / 100) / 2 ^ 53
    \<and> last_nonzero_volume s' = (if 0 < r then volume s' else last_nonzero_volume s)
    \<and> pcm s' = map_option (\<lambda>t. t\<lparr>pcm_volume := volume s'\<rparr>) (pcm s)
    \<and> s' = s\<lparr>volume := volume s', last_nonzero_volume := last_nonzero_volume s', pcm := pcm s'\<rparr>
    \<and> fst (set_volume_percent 250 s) = 200
    \<and> volume (snd (set_volume_percent 250 s)) = 2"
proof -
  have r: "r = clamp p 0 200" by (simp add: r_def set_volume_percent_eq)
  have r0: "0 \<le> r" by (simp add: r clamp_def)
  have "r = max 0 (min 200 p)" by (simp add: r clamp_def)
  moreover have v: "volume s' = float_div (of_int r) 100"
    by (simp add: s'_def r set_volume_percent_eq)
  moreover have "\<bar>volume s' - of_int r / 100\<bar> \<le> (of_int r / 100) / 2 ^ 53"
    unfolding v using r0 by (rule float_div_error)
  moreover have "last_nonzero_volume s' = (if 0 < r then volume s' else last_nonzero_volume s)"
    by (simp add: s'_def r set_volume_percent_eq)
  moreover have "pcm s' = map_option (\<lambda>t. t\<lparr>pcm_volume := volume s'\<rparr>) (pcm s)"
    by (simp add: s'_def r set_volume_percent_eq)
  moreover have
    "s' = s\<lparr>volume := volume s', last_nonzero_volume := last_nonzero_volume s', pcm := pcm s'\<rparr>"
    by (simp add: s'_def set_volume_percent_eq)
  moreover have "fst (set_volume_percent 250 s) = 200"
    by (simp add: set_volume_percent_eq clamp_def)
  moreover have "volume (snd (set_volume_percent 250 s)) = 2"
    by (simp add: set_volume_percent_eq clamp_def float_div_200)
  ultimately show ?thesis by blast
qed

text \<open>
  C5. Muting and then unmuting does not always restore the volume. \<^verbatim>\<open>unmute\<close> recovers
  the percentage with \<^verbatim>\<open>int(target * 100)\<close>, which truncates, where \<^verbatim>\<open>volume_percent\<close>
  rounds. After \<^verbatim>\<open>set_volume_percent(29)\<close> the volume is the float 0.29; the product
  \<^verbatim>\<open>0.29 * 100\<close> is the float just below 29, so \<^verbatim>\<open>unmute\<close> sets 28 percent and the
  volume after \<^verbatim>\<open>mute(); unmute()\<close> is the float 0.28.
\<close>

theorem mute_unmute_loses_volume:
  "volume (snd (set_volume_percent 29 s)) = float_div 29 100
   \<and> volume (mute (snd (set_volume_percent 29 s))) = 0
   \<and> fst (unmute (mute (snd (set_volume_percent 29 s)))) = 28
   \<and> volume (snd (unmute (mute (snd (set_volume_percent 29 s))))) = float_div 28 100
   \<and> float_div 28 100 < float_div 29 100"
  by (simp add: set_volume_percent_eq mute_def unmute_def clamp_def float_div_29 float_div_28
      float_div_0 float_mul_29 py_int_29 Let_def)



section \<open>Queue operations\<close>

lemma queue_add: "queue (add t s) = queue s @ [t]"
  by (simp add: add_def Let_def)

lemma add_other_fields:
  "current (add t s) = current s \<and> voice (add t s) = voice s \<and> volume (add t s) = volume s"
  by (simp add: add_def Let_def)

text \<open>
  C2. A sequence of \<^verbatim>\<open>add\<close> calls with no run of the loop in between leaves the queue
  as the old queue followed by the added tracks, in the order of the calls; each call
  appends its track at the tail.
\<close>

theorem enqueue_fifo:
  "queue (exec (map Add ts) s) = queue s @ ts
   \<and> queue (exec (map Add ts) (new_player u)) = ts
   \<and> queue (add t s) = queue s @ [t]"
proof -
  have "queue (exec (map Add ts) s) = queue s @ ts" for s
    by (induction ts arbitrary: s) (simp_all add: queue_add)
  then show ?thesis by (simp add: queue_add new_player_def)
qed

text \<open>
  C3. \<^verbatim>\<open>remove(index)\<close> with \<open>index < 1\<close> or \<open>index > len(queue)\<close> answers with the
  invalid index reply and leaves the player as it is. With an index in range it reports
  the item at the 1-based position \<open>index\<close> and stores the queue without it: one item
  fewer, the items before it at their positions, the items after it moved up by one. Only
  the queue changes, so the current track is not affected.
\<close>

theorem remove_correct:
  fixes index :: int and s :: GuildPlayer
  defines "q \<equiv> queue s"
  shows "(index < 1 \<or> int (length q) < index \<longrightarrow>
            remove index s = (Inl (InvalidIndex (length q)), s))
    \<and> (1 \<le> index \<and> index \<le> int (length q) \<longrightarrow>
         (\<exists>k s'. int k + 1 = index \<and> remove index s = (Inr (q ! k), s')
            \<and> s' = s\<lparr>queue := take k q @ drop (Suc k) q\<rparr>
            \<and> current s' = current s
            \<and> length (queue s') + 1 = length q
            \<and> (\<forall>j. j < k \<longrightarrow> queue s' ! j = q ! j)
            \<and> (\<forall>j. k \<le> j \<and> j < length (queue s') \<longrightarrow> queue s' ! j = q ! Suc j)))"
proof (intro conjI impI)
  assume "index < 1 \<or> int (length q) < index"
  then show "remove index s = (Inl (InvalidIndex (length q)), s)"
    by (auto simp: remove_def q_def Let_def)
next
  assume a: "1 \<le> index \<and> index \<le> int (length q)"
  define k where "k = nat (index - 1)"
  have k: "int k + 1 = index" "k < length q" using a by (auto simp: k_def)
  define s' where "s' = s\<lparr>queue := take k q @ drop (Suc k) q\<rparr>"
  have r: "remove index s = (Inr (q ! k), s')"
    using a by (auto simp: remove_def q_def Let_def k_def s'_def)
  have len: "length (queue s') + 1 = length q" using k by (simp add: s'_def)
  have before: "\<forall>j. j < k \<longrightarrow> queue s' ! j = q ! j"
    using k by (simp add: s'_def nth_append)
  have after: "\<forall>j. k \<le> j \<and> j < length (queue s') \<longrightarrow> queue s' ! j = q ! Suc j"
    using k len by (auto simp: s'_def nth_append min_def)
  show "\<exists>k s'. int k + 1 = index \<and> remove index s = (Inr (q ! k), s')
            \<and> s' = s\<lparr>queue := take k q @ drop (Suc k) q\<rparr>
            \<and> current s' = current s
            \<and> length (queue s') + 1 = length q
            \<and> (\<forall>j. j < k \<longrightarrow> queue s' ! j = q ! j)
            \<and> (\<forall>j. k \<le> j \<and> j < length (queue s') \<longrightarrow> queue s' ! j = q ! Suc j)"
    using k(1) r len before after by (intro exI[of _ k] exI[of _ s']) (simp add: s'_def)
qed

theorem remove_correct_witness:
  "remove 1 (example_player [example_track ''X'' 1, example_track ''Y'' 2, example_track ''Z'' 3])
     = (Inr (example_track ''X'' 1), example_player [example_track ''Y'' 2, example_track ''Z'' 3])
   \<and> remove 4 (example_player [example_track ''X'' 1, example_track ''Y'' 2, example_track ''Z'' 3])
     = (Inl (InvalidIndex 3),
        example_player [example_track ''X'' 1, example_track ''Y'' 2, example_track ''Z'' 3])
   \<and> remove 0 (example_player [example_track ''X'' 1, example_track ''Y'' 2, example_track ''Z'' 3])
     = (Inl (InvalidIndex 3),
        example_player [example_track ''X'' 1, example_track ''Y'' 2, example_track ''Z'' 3])"
proof -
  let ?s = "example_player [example_track ''X'' 1, example_track ''Y'' 2, example_track ''Z'' 3]"
  have q: "queue ?s = [example_track ''X'' 1, example_track ''Y'' 2, example_track ''Z'' 3]"
    by (simp add: example_player_def)
  have hi: "remove 4 ?s = (Inl (InvalidIndex 3), ?s)"
    using remove_correct[of 4 ?s] by (simp add: q)
  have lo: "remove 0 ?s = (Inl (InvalidIndex 3), ?s)"
    using remove_correct[of 0 ?s] by (simp add: q)
  obtain k s' where k: "int k + 1 = 1" and r: "remove 1 ?s = (Inr (queue ?s ! k), s')"
    and s': "s' = ?s\<lparr>queue := take k (queue ?s) @ drop (Suc k) (queue ?s)\<rparr>"
    using remove_correct[of 1 ?s] by (auto simp: q)
  have "k = 0" using k by simp
  then have "remove 1 ?s
      = (Inr (example_track ''X'' 1), example_player [example_track ''Y'' 2, example_track ''Z'' 3])"
    using r s' by (simp add: q) (simp add: example_player_def)
  then show ?thesis using hi lo by simp
qed

lemma random_shuffle_mset:
  "i < length xs \<Longrightarrow> mset (random_shuffle rnd i xs) = mset xs"
proof (induction i arbitrary: xs)
  case 0
  then show ?case by simp
next
  case (Suc i)
  let ?j = "rnd (Suc i) mod (Suc i + 1)"
  have "?j < Suc i + 1" by (rule mod_less_divisor) simp
  then have j: "?j < length xs" using Suc.prems by linarith
  have "mset (xs[Suc i := xs ! ?j, ?j := xs ! Suc i]) = mset xs"
    using Suc.prems j by (simp add: mset_swap)
  moreover have "i < length (xs[Suc i := xs ! ?j, ?j := xs ! Suc i])"
    using Suc.prems by simp
  ultimately show ?case using Suc.IH by (simp add: Let_def)
qed

text \<open>
  C10. \<^verbatim>\<open>shuffle\<close> leaves an empty queue as it is, and whatever the random source draws
  the shuffled queue has the same tracks with the same multiplicities and the same length
  as before. No field other than the queue changes.
\<close>

theorem shuffle_permutes:
  "mset (queue (shuffle rnd s)) = mset (queue s)
   \<and> length (queue (shuffle rnd s)) = length (queue s)
   \<and> shuffle rnd s = s\<lparr>queue := queue (shuffle rnd s)\<rparr>
   \<and> shuffle rnd (s\<lparr>queue := []\<rparr>) = s\<lparr>queue := []\<rparr>"
proof -
  have m: "mset (queue (shuffle rnd s)) = mset (queue s)"
    by (cases "queue s = []") (simp_all add: shuffle_def random_shuffle_mset)
  have "length (queue (shuffle rnd s)) = length (queue s)"
    using m by (metis size_mset)
  then show ?thesis using m by (simp add: shuffle_def)
qed



section \<open>At most one playback loop\<close>

lemma update_task_simps [simp]:
  "tasks (update_task tid f s) = (tasks s)[tid := f (tasks s ! tid)]"
  "play_task (update_task tid f s) = play_task s"
  "queue (update_task tid f s) = queue s"
  "current (update_task tid f s) = current s"
  "voice (update_task tid f s) = voice s"
  "stop_event (update_task tid f s) = stop_event s"
  "started_at (update_task tid f s) = started_at s"
  "pcm (update_task tid f s) = pcm s"
  "volume (update_task tid f s) = volume s"
  "last_nonzero_volume (update_task tid f s) = last_nonzero_volume s"
  "announce_channel (update_task tid f s) = announce_channel s"
  "bot_user (update_task tid f s) = bot_user s"
  by (simp_all add: update_task_def)

lemma finish_tasks:
  "tasks (finish tid s) = (tasks s)[tid := (tasks s ! tid)\<lparr>pos := Done\<rparr>]"
  "play_task (finish tid s) = play_task s"
  by (simp_all add: finish_def)

lemma cleanup_tasks:
  "length (tasks (cleanup tid s)) = length (tasks s)"
  "j \<noteq> tid \<Longrightarrow> tasks (cleanup tid s) ! j = tasks s ! j"
  "play_task (cleanup tid s) = play_task s"
  by (simp_all add: cleanup_def finish_tasks)

lemma loop_top_tasks:
  "length (tasks (loop_top tid ok now s)) = length (tasks s)"
  "j \<noteq> tid \<Longrightarrow> tasks (loop_top tid ok now s) ! j = tasks s ! j"
  "play_task (loop_top tid ok now s) = play_task s"
  by (simp_all add: loop_top_def cleanup_tasks Let_def split: list.split option.split)

lemma voice_disconnect_tasks [simp]:
  "tasks (voice_disconnect s) = tasks s" "play_task (voice_disconnect s) = play_task s"
  by (simp_all add: voice_disconnect_def split: option.split)

lemma run_loop_tasks:
  "length (tasks (run_loop tid ok now s)) = length (tasks s)"
  "j \<noteq> tid \<Longrightarrow> tasks (run_loop tid ok now s) ! j = tasks s ! j"
  "play_task (run_loop tid ok now s) = play_task s"
  by (simp_all add: run_loop_def loop_top_tasks finish_tasks split: suspension.split)

lemma run_loop_Done: "pos (tasks s ! tid) = Done \<Longrightarrow> run_loop tid ok now s = s"
  by (simp add: run_loop_def)

lemma handle_inv_run_loop: "handle_inv s \<Longrightarrow> handle_inv (run_loop tid ok now s)"
  unfolding handle_inv_def
proof (intro allI impI)
  fix j
  assume inv: "\<forall>j<length (tasks s). play_task s \<noteq> Some j \<longrightarrow> pos (tasks s ! j) = Done"
    and j: "j < length (tasks (run_loop tid ok now s))"
    and h: "play_task (run_loop tid ok now s) \<noteq> Some j"
  have d: "pos (tasks s ! j) = Done" using inv j h by (simp add: run_loop_tasks)
  show "pos (tasks (run_loop tid ok now s) ! j) = Done"
  proof (cases "j = tid")
    case True
    then show ?thesis using d by (simp add: run_loop_Done)
  next
    case False
    then show ?thesis using d by (simp add: run_loop_tasks)
  qed
qed

lemma handle_inv_cong:
  "map pos (tasks s') = map pos (tasks s) \<Longrightarrow> play_task s' = play_task s \<Longrightarrow>
   handle_inv s' = handle_inv s"
proof -
  assume m: "map pos (tasks s') = map pos (tasks s)" and p: "play_task s' = play_task s"
  have l: "length (tasks s') = length (tasks s)" using m by (rule map_eq_imp_length_eq)
  have "pos (tasks s' ! j) = pos (tasks s ! j)" if "j < length (tasks s)" for j
    using that m l by (metis nth_map)
  then show ?thesis by (auto simp: handle_inv_def l p)
qed

lemma map_pos_update:
  assumes "pos (f (xs ! k)) = pos (xs ! k)"
  shows "map pos (xs[k := f (xs ! k)]) = map pos xs"
proof (cases "k < length xs")
  case True
  then have "map pos (xs[k := f (xs ! k)]) = (map pos xs)[k := map pos xs ! k]"
    using assms by (simp add: map_update)
  then show ?thesis by simp
next
  case False
  then have "xs[k := f (xs ! k)] = xs" by (intro list_update_beyond) simp
  then show ?thesis by simp
qed

lemma no_loop_running_queue [simp]: "no_loop_running (s\<lparr>queue := q\<rparr>) = no_loop_running s"
  by (simp add: no_loop_running_def task_done_def split: option.split)

lemma add_eq:
  "add t s =
     (if no_loop_running s
      then s\<lparr>queue := queue s @ [t], stop_event := False,
             tasks := tasks s @ [\<lparr>pos = NotStarted, finished = False\<rparr>],
             play_task := Some (length (tasks s))\<rparr>
      else s\<lparr>queue := queue s @ [t]\<rparr>)"
  by (simp add: add_def Let_def)

lemma call_after_tasks:
  "map pos (tasks (call_after v s)) = map pos (tasks s)" "play_task (call_after v s) = play_task s"
  by (simp_all add: call_after_def map_pos_update split: option.split)

lemma skip_tasks:
  "map pos (tasks (skip s)) = map pos (tasks s)" "play_task (skip s) = play_task s"
  by (simp_all add: skip_def voice_stop_def call_after_tasks Let_def split: option.split)

lemma stream_ends_tasks:
  "map pos (tasks (stream_ends s)) = map pos (tasks s)" "play_task (stream_ends s) = play_task s"
  by (simp_all add: stream_ends_def call_after_tasks split: option.split)

lemma set_volume_percent_tasks [simp]:
  "tasks (snd (set_volume_percent p s)) = tasks s"
  "play_task (snd (set_volume_percent p s)) = play_task s"
  by (simp_all add: set_volume_percent_def Let_def split: option.split)

lemma handle_inv_add: "handle_inv s \<Longrightarrow> handle_inv (add t s)"
proof (cases "no_loop_running s")
  case False
  assume "handle_inv s"
  then show ?thesis using False
    by (simp add: handle_inv_def add_eq)
next
  case True
  assume inv: "handle_inv s"
  have all: "pos (tasks s ! j) = Done" if "j < length (tasks s)" for j
  proof (cases "play_task s = Some j")
    case True
    then show ?thesis using \<open>no_loop_running s\<close>
      by (simp add: no_loop_running_def task_done_def)
  next
    case False
    then show ?thesis using inv that by (simp add: handle_inv_def)
  qed
  have eq: "add t s = s\<lparr>queue := queue s @ [t], stop_event := False,
      tasks := tasks s @ [\<lparr>pos = NotStarted, finished = False\<rparr>],
      play_task := Some (length (tasks s))\<rparr>"
    using True by (simp add: add_eq)
  show ?thesis unfolding eq handle_inv_def
    by (auto simp: nth_append all less_Suc_eq)
qed

lemma handle_inv_step: "handle_inv s \<Longrightarrow> handle_inv (step e s)"
proof (cases e)
  case (Add t) then show "handle_inv s \<Longrightarrow> ?thesis" by (simp add: handle_inv_add)
next
  case Skip then show "handle_inv s \<Longrightarrow> ?thesis" by (simp add: handle_inv_cong[OF skip_tasks])
next
  case Stop then show "handle_inv s \<Longrightarrow> ?thesis"
    by (simp add: stop_def handle_inv_cong[OF skip_tasks]) (simp add: handle_inv_def)
next
  case (RunLoop tid ok now) then show "handle_inv s \<Longrightarrow> ?thesis" by (simp add: handle_inv_run_loop)
next
  case StreamEnds then show "handle_inv s \<Longrightarrow> ?thesis" by (simp add: handle_inv_cong[OF stream_ends_tasks])
qed (auto simp: handle_inv_def shuffle_def clear_queue_def remove_def Let_def mute_def unmute_def
      pause_def resume_def members_change_def new_voice_def split: option.splits)

lemma handle_inv_exec: "handle_inv s \<Longrightarrow> handle_inv (exec es s)"
  by (induction es arbitrary: s) (simp_all add: handle_inv_step)

lemma filter_at_most_one:
  "(\<forall>j<length xs. j \<noteq> i \<longrightarrow> \<not> P (xs ! j)) \<Longrightarrow> length (filter P xs) \<le> 1"
proof (induction xs arbitrary: i)
  case Nil
  then show ?case by simp
next
  case (Cons x xs)
  show ?case
  proof (cases i)
    case 0
    have "\<not> P (xs ! j)" if "j < length xs" for j
      using Cons.prems[rule_format, of "Suc j"] that 0 by simp
    then have "filter P xs = []" by (auto simp: filter_empty_conv in_set_conv_nth)
    then show ?thesis by simp
  next
    case (Suc i')
    have x: "\<not> P x" using Cons.prems[rule_format, of 0] Suc by simp
    have "\<forall>j<length xs. j \<noteq> i' \<longrightarrow> \<not> P (xs ! j)"
      using Cons.prems Suc by (metis Suc_less_eq length_Cons nat.inject nth_Cons_Suc)
    then have "length (filter P xs) \<le> 1" by (rule Cons.IH)
    then show ?thesis using x by simp
  qed
qed

lemma handle_inv_alive: "handle_inv s \<Longrightarrow> alive_loops s \<le> 1"
proof -
  assume inv: "handle_inv s"
  define i where "i = (case play_task s of None \<Rightarrow> length (tasks s) | Some k \<Rightarrow> k)"
  have "\<forall>j<length (tasks s). j \<noteq> i \<longrightarrow> \<not> alive (tasks s ! j)"
    using inv by (auto simp: handle_inv_def alive_def i_def split: option.splits)
  then show ?thesis unfolding alive_loops_def by (rule filter_at_most_one)
qed

text \<open>
  C1. In every execution from a new player, whatever the interleaving of calls of the
  player's operations, runs of its loop tasks and changes in the transport, at most one
  loop task has not returned. \<^verbatim>\<open>add\<close> creates a task exactly when the handle is empty or
  the task it refers to has returned; otherwise it leaves the tasks as they are.
\<close>

theorem at_most_one_loop:
  "alive_loops (exec es (new_player u)) \<le> 1
   \<and> tasks (add t s) = (if no_loop_running s then tasks s @ [\<lparr>pos = NotStarted, finished = False\<rparr>]
                         else tasks s)
   \<and> alive_loops (add t s) = (if no_loop_running s then Suc (alive_loops s) else alive_loops s)"
proof -
  have "handle_inv (new_player u)" by (simp add: handle_inv_def new_player_def)
  then have a: "alive_loops (exec es (new_player u)) \<le> 1"
    by (intro handle_inv_alive handle_inv_exec)
  have b: "tasks (add t s) = (if no_loop_running s then tasks s @ [\<lparr>pos = NotStarted, finished = False\<rparr>]
                         else tasks s)"
    by (simp add: add_eq)
  have c: "alive_loops (add t s) = (if no_loop_running s then Suc (alive_loops s) else alive_loops s)"
    unfolding alive_loops_def b by (simp add: alive_def)
  show ?thesis using a b c by blast
qed



section \<open>Leaving the playback loop\<close>

lemma finish_fields:
  "current (finish tid s) = None" "started_at (finish tid s) = None" "pcm (finish tid s) = None"
  "voice (finish tid s) = voice s" "queue (finish tid s) = queue s"
  "stop_event (finish tid s) = stop_event s"
  by (simp_all add: finish_def)

lemma finish_pos: "tid < length (tasks s) \<Longrightarrow> pos (tasks (finish tid s) ! tid) = Done"
  by (simp add: finish_def)

lemma cleanup_pos:
  "tid < length (tasks s) \<Longrightarrow>
   pos (tasks (cleanup tid s) ! tid) =
     (if channel_empty_excluding_self s \<and> voice_connected s then Disconnecting else Done)"
  by (simp add: cleanup_def finish_pos)

lemma cleanup_Done_fields:
  "tid < length (tasks s) \<Longrightarrow> pos (tasks (cleanup tid s) ! tid) = Done \<Longrightarrow>
   current (cleanup tid s) = None \<and> started_at (cleanup tid s) = None \<and>
   pcm (cleanup tid s) = None \<and> voice (cleanup tid s) = voice s"
  by (auto simp: cleanup_def finish_fields split: if_splits)

lemma channel_empty_cong:
  "voice s' = voice s \<Longrightarrow> bot_user s' = bot_user s \<Longrightarrow>
   channel_empty_excluding_self s' = channel_empty_excluding_self s"
  by (simp add: channel_empty_excluding_self_def others_in_channel_count_def split: option.split)

lemma voice_connected_cong: "voice s' = voice s \<Longrightarrow> voice_connected s' = voice_connected s"
  by (simp add: voice_connected_def)

lemma loop_top_exit:
  assumes "loop_exits s"
  shows "\<exists>s1. loop_top tid ok now s = cleanup tid s1 \<and> voice s1 = voice s
           \<and> bot_user s1 = bot_user s \<and> tasks s1 = tasks s"
proof (cases "queue s")
  case Nil
  then show ?thesis by (intro exI[of _ s]) (simp add: loop_top_def)
next
  case (Cons t q)
  show ?thesis
  proof (cases "channel_empty_excluding_self s")
    case True
    then show ?thesis using Cons by (intro exI[of _ s]) (simp add: loop_top_def)
  next
    case False
    then have nc: "\<not> voice_connected s" using assms Cons by (simp add: loop_exits_def)
    show ?thesis
    proof (cases "voice s")
      case None
      then show ?thesis using Cons False
        by (intro exI[of _ "s\<lparr>queue := q, current := Some t, started_at := None\<rparr>"])
           (simp add: loop_top_def Let_def)
    next
      case (Some v)
      then have "\<not> connected v" using nc by (simp add: voice_connected_def)
      then show ?thesis using Cons False Some
        by (intro exI[of _ "s\<lparr>queue := q, current := Some t, started_at := None\<rparr>"])
           (simp add: loop_top_def Let_def)
    qed
  qed
qed

lemma loop_top_continue:
  assumes "\<not> loop_exits s" "tid < length (tasks s)"
  shows "pos (tasks (loop_top tid ok now s) ! tid)
     = (if \<not> ok then AttachFailedYield else if announce_channel s \<noteq> None then Announcing else Racing)"
proof -
  obtain t q where q: "queue s = t # q" using assms(1) by (cases "queue s") (auto simp: loop_exits_def)
  obtain v where v: "voice s = Some v" "connected v"
    using assms(1) by (cases "voice s") (auto simp: loop_exits_def voice_connected_def)
  have ne: "\<not> channel_empty_excluding_self s" using assms(1) by (simp add: loop_exits_def)
  show ?thesis using q v ne assms(2) by (simp add: loop_top_def Let_def)
qed


lemma voice_disconnect_not_connected: "\<not> voice_connected (voice_disconnect s)"
  by (simp add: voice_disconnect_def voice_connected_def split: option.split)

lemma voice_connected_finish: "voice_connected (finish tid s) = voice_connected s"
  by (simp add: voice_connected_def finish_fields)

text \<open>
  C9. A pass that starts at the test of the \<^verbatim>\<open>while\<close> loop leaves the loop exactly when
  the queue is empty, nobody else is in the channel or the transport is not connected.
  On leaving, the loop awaits \<^verbatim>\<open>voice.disconnect()\<close> exactly when nobody else is in the
  channel and the transport is connected. Without the disconnect the task returns at once
  with the current track, the start time and the stream reference cleared and the
  transport untouched; with it, the task returns at its next run, with the three fields
  cleared and the transport disconnected.
\<close>

theorem loop_exit_cleanup:
  fixes s :: GuildPlayer and tid :: nat and ok ok2 :: bool and now now2 :: rat
  assumes tid: "tid < length (tasks s)"
    and top: "pos (tasks s ! tid) = NotStarted \<or> pos (tasks s ! tid) = AttachFailedYield
              \<or> pos (tasks s ! tid) = Pacing"
  defines "s' \<equiv> run_loop tid ok now s"
  defines "s'' \<equiv> run_loop tid ok2 now2 s'"
  shows "((pos (tasks s' ! tid) = Done \<or> pos (tasks s' ! tid) = Disconnecting) = loop_exits s)
    \<and> ((pos (tasks s' ! tid) = Disconnecting)
           = (channel_empty_excluding_self s \<and> voice_connected s))
    \<and> (pos (tasks s' ! tid) = Done \<longrightarrow>
           current s' = None \<and> started_at s' = None \<and> pcm s' = None \<and> voice s' = voice s)
    \<and> (pos (tasks s' ! tid) = Disconnecting \<longrightarrow>
           pos (tasks s'' ! tid) = Done \<and> current s'' = None \<and> started_at s'' = None
           \<and> pcm s'' = None \<and> \<not> voice_connected s'')"
proof -
  have rl: "s' = loop_top tid ok now s"
    using tid top by (auto simp: s'_def run_loop_def)
  have len: "length (tasks s') = length (tasks s)" by (simp add: s'_def run_loop_tasks)
  have a: "(pos (tasks s' ! tid) = Done \<or> pos (tasks s' ! tid) = Disconnecting) = loop_exits s"
  proof (cases "loop_exits s")
    case True
    then obtain s1 where s1: "loop_top tid ok now s = cleanup tid s1" "tasks s1 = tasks s"
      using loop_top_exit by blast
    then show ?thesis using True tid by (simp add: rl cleanup_pos)
  next
    case False
    then show ?thesis using tid by (simp add: rl loop_top_continue)
  qed
  have b: "(pos (tasks s' ! tid) = Disconnecting)
           = (channel_empty_excluding_self s \<and> voice_connected s)"
  proof (cases "loop_exits s")
    case True
    then obtain s1 where s1: "loop_top tid ok now s = cleanup tid s1" "tasks s1 = tasks s"
      "voice s1 = voice s" "bot_user s1 = bot_user s"
      using loop_top_exit by blast
    then show ?thesis using tid
      by (simp add: rl cleanup_pos channel_empty_cong[of s1 s] voice_connected_cong[of s1 s])
  next
    case False
    then have "\<not> channel_empty_excluding_self s" by (simp add: loop_exits_def)
    then show ?thesis using False tid by (simp add: rl loop_top_continue)
  qed
  have c: "current s' = None \<and> started_at s' = None \<and> pcm s' = None \<and> voice s' = voice s"
    if d: "pos (tasks s' ! tid) = Done"
  proof -
    have "loop_exits s" using a d by simp
    then obtain s1 where s1: "loop_top tid ok now s = cleanup tid s1" "tasks s1 = tasks s"
      "voice s1 = voice s"
      using loop_top_exit by blast
    then show ?thesis using cleanup_Done_fields[of tid s1] d tid by (simp add: rl)
  qed
  have d: "pos (tasks s'' ! tid) = Done \<and> current s'' = None \<and> started_at s'' = None
           \<and> pcm s'' = None \<and> \<not> voice_connected s''"
    if d: "pos (tasks s' ! tid) = Disconnecting"
  proof -
    have r: "s'' = finish tid (voice_disconnect s')"
      using d tid len by (simp add: s''_def run_loop_def)
    show ?thesis unfolding r using tid len
      by (simp add: finish_fields finish_pos voice_connected_finish voice_disconnect_not_connected)
  qed
  show ?thesis using a b c d by blast
qed

lemma no_loop_running_simps [simp]:
  "no_loop_running (s\<lparr>voice := v\<rparr>) = no_loop_running s"
  "no_loop_running (s\<lparr>current := c\<rparr>) = no_loop_running s"
  "no_loop_running (s\<lparr>stop_event := b\<rparr>) = no_loop_running s"
  by (simp_all add: no_loop_running_def task_done_def split: option.split)

lemma no_loop_running_new [simp]: "no_loop_running (new_player u)"
  by (simp add: no_loop_running_def new_player_def)

lemma alone_player_eq:
  "alone_player =
     \<lparr>bot_user = Some 0, queue = [example_track ''A'' 180], current = None,
      voice = Some \<lparr>connected = True, playing = False, paused = False, members = Some [0],
                    after = None\<rparr>,
      play_task = Some 0, tasks = [\<lparr>pos = NotStarted, finished = False\<rparr>], stop_event = False,
      started_at = None, volume = 1, pcm = None, last_nonzero_volume = 1,
      announce_channel = None\<rparr>"
  by (simp add: alone_player_def new_voice_def add_eq) (simp add: new_player_def)

lemma drained_player_eq:
  "drained_player =
     \<lparr>bot_user = Some 0, queue = [], current = None,
      voice = Some \<lparr>connected = True, playing = False, paused = False, members = Some [0, 7],
                    after = None\<rparr>,
      play_task = Some 0, tasks = [\<lparr>pos = NotStarted, finished = False\<rparr>], stop_event = False,
      started_at = None, volume = 1, pcm = None, last_nonzero_volume = 1,
      announce_channel = None\<rparr>"
  by (simp add: drained_player_def new_voice_def add_eq clear_queue_def) (simp add: new_player_def)

theorem loop_exit_cleanup_witness:
  "pos (tasks (run_loop 0 True 1 alone_player) ! 0) = Disconnecting
   \<and> pos (tasks (run_loop 0 True 2 (run_loop 0 True 1 alone_player)) ! 0) = Done
   \<and> current (run_loop 0 True 2 (run_loop 0 True 1 alone_player)) = None
   \<and> \<not> voice_connected (run_loop 0 True 2 (run_loop 0 True 1 alone_player))
   \<and> pos (tasks (run_loop 0 True 1 drained_player) ! 0) = Done
   \<and> current (run_loop 0 True 1 drained_player) = None
   \<and> voice_connected (run_loop 0 True 1 drained_player)"
proof -
  have a1: "0 < length (tasks alone_player)" by (simp add: alone_player_eq)
  have a2: "pos (tasks alone_player ! 0) = NotStarted \<or> pos (tasks alone_player ! 0) = AttachFailedYield
       \<or> pos (tasks alone_player ! 0) = Pacing" by (simp add: alone_player_eq)
  have a3: "channel_empty_excluding_self alone_player \<and> voice_connected alone_player"
    by (simp add: alone_player_eq channel_empty_excluding_self_def others_in_channel_count_def
        voice_connected_def)
  have d1: "0 < length (tasks drained_player)" by (simp add: drained_player_eq)
  have d2: "pos (tasks drained_player ! 0) = NotStarted \<or> pos (tasks drained_player ! 0) = AttachFailedYield
       \<or> pos (tasks drained_player ! 0) = Pacing" by (simp add: drained_player_eq)
  have d3: "loop_exits drained_player \<and> \<not> channel_empty_excluding_self drained_player
       \<and> voice_connected drained_player"
    by (simp add: drained_player_eq loop_exits_def channel_empty_excluding_self_def
        others_in_channel_count_def voice_connected_def)
  show ?thesis
    using loop_exit_cleanup[OF a1 a2, of True 1 True 2] loop_exit_cleanup[OF d1 d2, of True 1 True 2]
      a3 d3
    by (auto simp: voice_connected_def)
qed



section \<open>A stream that fails to open\<close>



lemma loop_running_first:
  "play_task s = Some 0 \<Longrightarrow> pos (tasks s ! 0) \<noteq> Done \<Longrightarrow> no_loop_running s = False"
  by (simp add: no_loop_running_def task_done_def)

lemma no_loop_running_None: "play_task s = None \<Longrightarrow> no_loop_running s = True"
  by (simp add: no_loop_running_def)

lemma two_track_player_eq:
  "two_track_player =
     \<lparr>bot_user = Some 0, queue = [example_track ''A'' 180, example_track ''B'' 200],
      current = None,
      voice = Some \<lparr>connected = True, playing = False, paused = False, members = Some [0, 7],
                    after = None\<rparr>,
      play_task = Some 0, tasks = [\<lparr>pos = NotStarted, finished = False\<rparr>], stop_event = False,
      started_at = None, volume = 1, pcm = None, last_nonzero_volume = 1,
      announce_channel = None\<rparr>"
  by (simp add: two_track_player_def new_voice_def add_eq new_player_def loop_running_first no_loop_running_None)

lemma pacing_player_eq:
  "pacing_player =
     \<lparr>bot_user = Some 0, queue = [example_track ''B'' 200],
      current = Some (example_track ''A'' 180),
      voice = Some \<lparr>connected = True, playing = False, paused = False, members = Some [0, 7],
                    after = Some 0\<rparr>,
      play_task = Some 0, tasks = [\<lparr>pos = Pacing, finished = True\<rparr>], stop_event = False,
      started_at = Some 10, volume = 1, pcm = None, last_nonzero_volume = 1,
      announce_channel = None\<rparr>"
  by (simp add: pacing_player_def two_track_player_eq run_loop_def loop_top_def
      channel_empty_excluding_self_def others_in_channel_count_def update_task_def
      stream_ends_def call_after_def voice_play_def Let_def)

lemmas loop_eval = run_loop_def loop_top_def cleanup_def finish_def voice_play_def
  channel_empty_excluding_self_def others_in_channel_count_def voice_connected_def
  update_task_def Let_def



section \<open>The stop event\<close>

lemma race_resets_stop_event:
  "tid < length (tasks s) \<Longrightarrow> pos (tasks s ! tid) = Racing \<Longrightarrow>
   finished (tasks s ! tid) \<or> stop_event s \<Longrightarrow> \<not> stop_event (run_loop tid ok now s)"
  by (auto simp: run_loop_def)

lemma add_clears_stop_event: "no_loop_running s \<Longrightarrow> \<not> stop_event (add t s)"
  by (simp add: add_eq)

text \<open>
  C8. The loop clears the stop event after each wait and \<^verbatim>\<open>add\<close> clears it before it
  starts a new loop, but an event raised while the loop sleeps between two tracks stays
  set. In \<open>pacing_player\<close> track A has ended and the loop is in its pacing sleep, A still
  being the current track. \<^verbatim>\<open>skip()\<close> finds nothing playing and only sets the event. The
  loop then takes track B and starts it, and begins its wait with the event set: it leaves
  the wait at its next run although nothing was raised since B was taken, and one run
  later it returns and clears the current track while the transport still plays B.
\<close>

theorem stale_stop_event_cancels_next_track:
  "pos (tasks pacing_player ! 0) = Pacing
   \<and> current pacing_player = Some (example_track ''A'' 180)
   \<and> queue pacing_player = [example_track ''B'' 200]
   \<and> \<not> stop_event pacing_player
   \<and> skip pacing_player = pacing_player\<lparr>stop_event := True\<rparr>
   \<and> exec [Skip, RunLoop 0 True 21] pacing_player =
       \<lparr>bot_user = Some 0, queue = [], current = Some (example_track ''B'' 200),
        voice = Some \<lparr>connected = True, playing = True, paused = False, members = Some [0, 7],
                      after = Some 0\<rparr>,
        play_task = Some 0, tasks = [\<lparr>pos = Racing, finished = False\<rparr>], stop_event = True,
        started_at = Some 21, volume = 1,
        pcm = Some \<lparr>source = url (example_track ''B'' 200), pcm_volume = 1\<rparr>,
        last_nonzero_volume = 1, announce_channel = None\<rparr>
   \<and> exec [Skip, RunLoop 0 True 21, RunLoop 0 True 22] pacing_player =
       \<lparr>bot_user = Some 0, queue = [], current = Some (example_track ''B'' 200),
        voice = Some \<lparr>connected = True, playing = True, paused = False, members = Some [0, 7],
                      after = Some 0\<rparr>,
        play_task = Some 0, tasks = [\<lparr>pos = Pacing, finished = False\<rparr>], stop_event = False,
        started_at = Some 21, volume = 1, pcm = None,
        last_nonzero_volume = 1, announce_channel = None\<rparr>
   \<and> exec [Skip, RunLoop 0 True 21, RunLoop 0 True 22, RunLoop 0 True 23] pacing_player =
       \<lparr>bot_user = Some 0, queue = [], current = None,
        voice = Some \<lparr>connected = True, playing = True, paused = False, members = Some [0, 7],
                      after = Some 0\<rparr>,
        play_task = Some 0, tasks = [\<lparr>pos = Done, finished = False\<rparr>], stop_event = False,
        started_at = None, volume = 1, pcm = None,
        last_nonzero_volume = 1, announce_channel = None\<rparr>"
  by (simp add: pacing_player_eq skip_def loop_eval)



section \<open>Skipping\<close>

lemma pos_update_finished:
  "pos ((xs[k := (xs ! k)\<lparr>finished := b\<rparr>]) ! i) = pos (xs ! i)"
proof (cases "k < length xs")
  case True
  then show ?thesis by (cases "i = k") (simp_all add: nth_list_update)
next
  case False
  then have "xs[k := (xs ! k)\<lparr>finished := b\<rparr>] = xs" by (intro list_update_beyond) simp
  then show ?thesis by simp
qed

lemma call_after_fields:
  "queue (call_after v s) = queue s" "current (call_after v s) = current s"
  "voice (call_after v s) = voice s" "stop_event (call_after v s) = stop_event s"
  "pcm (call_after v s) = pcm s" "bot_user (call_after v s) = bot_user s"
  "play_task (call_after v s) = play_task s"
  "length (tasks (call_after v s)) = length (tasks s)"
  "pos (tasks (call_after v s) ! i) = pos (tasks s ! i)"
  by (simp_all add: call_after_def pos_update_finished split: option.split)

text \<open>What \<^verbatim>\<open>skip\<close> does to the transport: a stream that is playing is stopped.\<close>

lemma skip_fields:
  "stop_event (skip s)"
  "voice (skip s)
     = map_option (\<lambda>v. if playing v then v\<lparr>playing := False, paused := False\<rparr> else v) (voice s)"
  "queue (skip s) = queue s" "current (skip s) = current s" "pcm (skip s) = pcm s"
  "bot_user (skip s) = bot_user s" "play_task (skip s) = play_task s"
  "length (tasks (skip s)) = length (tasks s)"
  "pos (tasks (skip s) ! i) = pos (tasks s ! i)"
  by (simp_all add: skip_def voice_stop_def call_after_fields Let_def split: option.split)

lemma skip_nothing_playing:
  "(case voice s of None \<Rightarrow> True | Some v \<Rightarrow> \<not> playing v) \<Longrightarrow> skip s = s\<lparr>stop_event := True\<rparr>"
  by (simp add: skip_def Let_def split: option.splits)

lemma skip_idem: "skip (skip s) = skip s"
proof -
  have "case voice (skip s) of None \<Rightarrow> True | Some v \<Rightarrow> \<not> playing v"
    by (simp add: skip_fields split: option.split)
  then have "skip (skip s) = (skip s)\<lparr>stop_event := True\<rparr>" by (rule skip_nothing_playing)
  also have "\<dots> = skip s" using skip_fields(1)[of s] by simp
  finally show ?thesis .
qed

lemma skip_channel:
  "channel_empty_excluding_self (skip s) = channel_empty_excluding_self s"
  "voice_connected (skip s) = voice_connected s"
  by (simp_all add: channel_empty_excluding_self_def others_in_channel_count_def
      voice_connected_def skip_fields split: option.split)

lemma loop_top_plays:
  assumes "queue s = b # q" "\<not> loop_exits s" "tid < length (tasks s)"
  shows "current (loop_top tid True now s) = Some b \<and> queue (loop_top tid True now s) = q
    \<and> pcm (loop_top tid True now s) = Some \<lparr>source = url b, pcm_volume = volume s\<rparr>
    \<and> started_at (loop_top tid True now s) = Some now
    \<and> (case voice (loop_top tid True now s) of None \<Rightarrow> False
        | Some v \<Rightarrow> playing v \<and> \<not> paused v \<and> after v = Some tid)
    \<and> \<not> finished (tasks (loop_top tid True now s) ! tid)
    \<and> pos (tasks (loop_top tid True now s) ! tid)
        = (if announce_channel s \<noteq> None then Announcing else Racing)"
proof -
  obtain v where v: "voice s = Some v" "connected v"
    using assms(2) by (cases "voice s") (auto simp: loop_exits_def voice_connected_def)
  have ne: "\<not> channel_empty_excluding_self s" using assms(2) by (simp add: loop_exits_def)
  show ?thesis using assms(1,3) v ne by (simp add: loop_top_def voice_play_def Let_def)
qed

lemma racing_player_eq:
  "racing_player =
     \<lparr>bot_user = Some 0, queue = [example_track ''B'' 200],
      current = Some (example_track ''A'' 180),
      voice = Some \<lparr>connected = True, playing = True, paused = False, members = Some [0, 7],
                    after = Some 0\<rparr>,
      play_task = Some 0, tasks = [\<lparr>pos = Racing, finished = False\<rparr>], stop_event = False,
      started_at = Some 10, volume = 1,
      pcm = Some \<lparr>source = url (example_track ''A'' 180), pcm_volume = 1\<rparr>,
      last_nonzero_volume = 1, announce_channel = None\<rparr>"
  by (simp add: racing_player_def two_track_player_eq loop_eval)

text \<open>
  \<^verbatim>\<open>skip\<close> always sets the stop event; a stream that is playing is stopped, and
  otherwise the transport is left alone, so that with nothing playing the call only sets
  the event. The queue and the current track are untouched and a second call changes
  nothing more. When the loop is waiting on a track, its next run after \<^verbatim>\<open>skip\<close> leaves the
  wait, clears the event and the stream reference and goes to the pacing sleep with the
  queue as it was; the run after that leaves the loop when the queue is empty (or nobody
  is left in the channel, or the transport is not connected), and otherwise takes the head
  of the queue as the current track and starts it: the skipped track is not put back.
\<close>

theorem skip_effects:
  fixes s :: GuildPlayer and tid :: nat and ok :: bool and now now2 :: rat
  defines "s1 \<equiv> skip s"
  defines "s2 \<equiv> run_loop tid ok now s1"
  defines "s3 \<equiv> run_loop tid True now2 s2"
  shows "stop_event s1
    \<and> voice s1
        = map_option (\<lambda>v. if playing v then v\<lparr>playing := False, paused := False\<rparr> else v) (voice s)
    \<and> ((case voice s of None \<Rightarrow> True | Some v \<Rightarrow> \<not> playing v) \<longrightarrow> s1 = s\<lparr>stop_event := True\<rparr>)
    \<and> queue s1 = queue s \<and> current s1 = current s
    \<and> skip s1 = s1
    \<and> (tid < length (tasks s) \<and> pos (tasks s ! tid) = Racing \<longrightarrow>
          pos (tasks s2 ! tid) = Pacing \<and> \<not> stop_event s2 \<and> pcm s2 = None
          \<and> queue s2 = queue s \<and> current s2 = current s
          \<and> (loop_exits s \<longrightarrow>
                pos (tasks s3 ! tid) = Done \<or> pos (tasks s3 ! tid) = Disconnecting)
          \<and> (\<not> loop_exits s \<longrightarrow>
                current s3 = Some (hd (queue s)) \<and> queue s3 = tl (queue s)
                \<and> (case voice s3 of None \<Rightarrow> False | Some v \<Rightarrow> playing v \<and> after v = Some tid)
                \<and> (pos (tasks s3 ! tid) = Announcing \<or> pos (tasks s3 ! tid) = Racing)))"
proof -
  have a: "stop_event s1" by (simp add: s1_def skip_fields)
  have b: "voice s1
        = map_option (\<lambda>v. if playing v then v\<lparr>playing := False, paused := False\<rparr> else v) (voice s)"
    by (simp add: s1_def skip_fields)
  have c: "(case voice s of None \<Rightarrow> True | Some v \<Rightarrow> \<not> playing v) \<longrightarrow> s1 = s\<lparr>stop_event := True\<rparr>"
    by (simp add: s1_def skip_nothing_playing)
  have d: "queue s1 = queue s \<and> current s1 = current s" by (simp add: s1_def skip_fields)
  have e: "skip s1 = s1" by (simp add: s1_def skip_idem)
  have f: "pos (tasks s2 ! tid) = Pacing \<and> \<not> stop_event s2 \<and> pcm s2 = None
          \<and> queue s2 = queue s \<and> current s2 = current s
          \<and> (loop_exits s \<longrightarrow>
                pos (tasks s3 ! tid) = Done \<or> pos (tasks s3 ! tid) = Disconnecting)
          \<and> (\<not> loop_exits s \<longrightarrow>
                current s3 = Some (hd (queue s)) \<and> queue s3 = tl (queue s)
                \<and> (case voice s3 of None \<Rightarrow> False | Some v \<Rightarrow> playing v \<and> after v = Some tid)
                \<and> (pos (tasks s3 ! tid) = Announcing \<or> pos (tasks s3 ! tid) = Racing))"
    if tid: "tid < length (tasks s)" and r: "pos (tasks s ! tid) = Racing"
  proof -
    have tid1: "tid < length (tasks s1)" using tid by (simp add: s1_def skip_fields)
    have r1: "pos (tasks s1 ! tid) = Racing" using r by (simp add: s1_def skip_fields)
    have s2: "s2 = update_task tid (\<lambda>x. x\<lparr>pos := Pacing\<rparr>) (s1\<lparr>stop_event := False, pcm := None\<rparr>)"
      using tid1 r1 a by (simp add: s2_def run_loop_def)
    have tid2: "tid < length (tasks s2)" using tid1 by (simp add: s2)
    have p2: "pos (tasks s2 ! tid) = Pacing" using tid1 by (simp add: s2)
    have f2: "\<not> stop_event s2 \<and> pcm s2 = None \<and> queue s2 = queue s \<and> current s2 = current s"
      using d by (simp add: s2)
    have "channel_empty_excluding_self s2 = channel_empty_excluding_self s1"
      by (rule channel_empty_cong) (simp_all add: s2)
    moreover have "voice_connected s2 = voice_connected s1"
      by (rule voice_connected_cong) (simp add: s2)
    ultimately have ch: "channel_empty_excluding_self s2 = channel_empty_excluding_self s"
      "voice_connected s2 = voice_connected s"
      by (simp_all add: s1_def skip_channel)
    have ex: "loop_exits s2 = loop_exits s" using f2 ch by (simp add: loop_exits_def)
    have s3: "s3 = loop_top tid True now2 s2" using tid2 p2 by (simp add: s3_def run_loop_def)
    have g: "pos (tasks s3 ! tid) = Done \<or> pos (tasks s3 ! tid) = Disconnecting" if le: "loop_exits s"
    proof -
      have le2: "loop_exits s2" using le ex by simp
      obtain t where t: "loop_top tid True now2 s2 = cleanup tid t" "tasks t = tasks s2"
        using loop_top_exit[OF le2, of tid True now2] by blast
      then show ?thesis using tid2 by (simp add: s3 cleanup_pos)
    qed
    have h: "current s3 = Some (hd (queue s)) \<and> queue s3 = tl (queue s)
                \<and> (case voice s3 of None \<Rightarrow> False | Some v \<Rightarrow> playing v \<and> after v = Some tid)
                \<and> (pos (tasks s3 ! tid) = Announcing \<or> pos (tasks s3 ! tid) = Racing)"
      if ne: "\<not> loop_exits s"
    proof -
      obtain b q where q: "queue s = b # q" using ne by (cases "queue s") (auto simp: loop_exits_def)
      then have q2: "queue s2 = b # q" using f2 by simp
      have ne2: "\<not> loop_exits s2" using ne ex by simp
      show ?thesis using loop_top_plays[OF q2 ne2 tid2, of now2] q
        by (auto simp: s3 split: option.splits)
    qed
    show ?thesis using p2 f2 g h by blast
  qed
  show ?thesis using a b c d e f by blast
qed

theorem skip_effects_example:
  "stop_event (skip racing_player)
   \<and> current (exec [Skip, RunLoop 0 True 11, RunLoop 0 True 12] racing_player)
       = Some (example_track ''B'' 200)
   \<and> queue (exec [Skip, RunLoop 0 True 11, RunLoop 0 True 12] racing_player) = []
   \<and> skip pacing_player = pacing_player\<lparr>stop_event := True\<rparr>
   \<and> pos (tasks (exec [Skip, RunLoop 0 True 11, RunLoop 0 True 12] (clear_queue racing_player)) ! 0)
       = Done"
proof -
  let ?c = "clear_queue racing_player"
  have r: "0 < length (tasks racing_player) \<and> pos (tasks racing_player ! 0) = Racing"
    by (simp add: racing_player_eq)
  have ne: "\<not> loop_exits racing_player"
    by (simp add: racing_player_eq loop_exits_def channel_empty_excluding_self_def
        others_in_channel_count_def voice_connected_def)
  have q: "hd (queue racing_player) = example_track ''B'' 200 \<and> tl (queue racing_player) = []"
    by (simp add: racing_player_eq)
  have c: "0 < length (tasks ?c) \<and> pos (tasks ?c ! 0) = Racing"
    by (simp add: racing_player_eq clear_queue_def)
  have ce: "loop_exits ?c \<and> \<not> channel_empty_excluding_self ?c"
    by (simp add: racing_player_eq clear_queue_def loop_exits_def channel_empty_excluding_self_def
        others_in_channel_count_def)
  have p: "case voice pacing_player of None \<Rightarrow> True | Some v \<Rightarrow> \<not> playing v"
    by (simp add: pacing_player_eq)
  have w1: "stop_event (skip racing_player)
      \<and> current (run_loop 0 True 12 (run_loop 0 True 11 (skip racing_player)))
          = Some (example_track ''B'' 200)
      \<and> queue (run_loop 0 True 12 (run_loop 0 True 11 (skip racing_player))) = []"
    using skip_effects[of racing_player 0 True 11 12] r ne q by simp
  have w2: "skip pacing_player = pacing_player\<lparr>stop_event := True\<rparr>"
    using skip_effects[of pacing_player 0 True 11 12] p by blast
  have w3: "pos (tasks (run_loop 0 True 12 (run_loop 0 True 11 (skip ?c))) ! 0) = Done
      \<or> pos (tasks (run_loop 0 True 12 (run_loop 0 True 11 (skip ?c))) ! 0) = Disconnecting"
    using skip_effects[of ?c 0 True 11 12] c ce by blast
  have "pos (tasks (run_loop 0 True 12 (run_loop 0 True 11 (skip ?c))) ! 0) \<noteq> Disconnecting"
    by (simp add: racing_player_eq clear_queue_def skip_def voice_stop_def call_after_def loop_eval)
  then show ?thesis using w1 w2 w3 by simp
qed

text \<open>
  The same when \<^verbatim>\<open>skip\<close> comes while the loop, having started the track, still awaits the
  announcement: the loop enters the wait with the event set, leaves it at its next run and
  reaches the pacing sleep with the queue and the current track as they were.
\<close>

lemma skip_while_announcing:
  fixes s :: GuildPlayer and tid :: nat and ok ok2 :: bool and now now2 :: rat
  defines "s1 \<equiv> skip s"
  defines "s2 \<equiv> run_loop tid ok now s1"
  defines "s3 \<equiv> run_loop tid ok2 now2 s2"
  assumes tid: "tid < length (tasks s)" and r: "pos (tasks s ! tid) = Announcing"
  shows "pos (tasks s2 ! tid) = Racing \<and> stop_event s2
     \<and> pos (tasks s3 ! tid) = Pacing \<and> \<not> stop_event s3 \<and> pcm s3 = None
     \<and> queue s3 = queue s \<and> current s3 = current s
     \<and> channel_empty_excluding_self s3 = channel_empty_excluding_self s
     \<and> voice_connected s3 = voice_connected s"
proof -
  have a: "stop_event s1" by (simp add: s1_def skip_fields)
  have tid1: "tid < length (tasks s1)" using tid by (simp add: s1_def skip_fields)
  have r1: "pos (tasks s1 ! tid) = Announcing" using r by (simp add: s1_def skip_fields)
  have s2: "s2 = update_task tid (\<lambda>x. x\<lparr>pos := Racing\<rparr>) s1"
    using tid1 r1 by (simp add: s2_def run_loop_def)
  have tid2: "tid < length (tasks s2)" using tid1 by (simp add: s2)
  have p2: "pos (tasks s2 ! tid) = Racing" using tid1 by (simp add: s2)
  have e2: "stop_event s2" using a by (simp add: s2)
  have s3: "s3 = update_task tid (\<lambda>x. x\<lparr>pos := Pacing\<rparr>) (s2\<lparr>stop_event := False, pcm := None\<rparr>)"
    using tid2 p2 e2 by (simp add: s3_def run_loop_def)
  have p3: "pos (tasks s3 ! tid) = Pacing" using tid2 by (simp add: s3)
  have f3: "\<not> stop_event s3 \<and> pcm s3 = None \<and> queue s3 = queue s \<and> current s3 = current s"
    by (simp add: s3 s2 s1_def skip_fields)
  have "channel_empty_excluding_self s3 = channel_empty_excluding_self s1"
    by (rule channel_empty_cong) (simp_all add: s3 s2)
  moreover have "voice_connected s3 = voice_connected s1"
    by (rule voice_connected_cong) (simp add: s3 s2)
  ultimately have ch: "channel_empty_excluding_self s3 = channel_empty_excluding_self s"
      "voice_connected s3 = voice_connected s"
    by (simp_all add: s1_def skip_channel)
  show ?thesis using p2 e2 p3 f3 ch by blast
qed

text \<open>
  C6. \<^verbatim>\<open>skip\<close> with nothing playing only sets the stop event, but it is not without
  consequence: the event stays set until the loop's next wait, which then belongs to a
  track that was never skipped. In \<open>pacing_player\<close> track A has ended and the loop is in its
  pacing sleep before it takes B. Left alone, the loop starts B and waits on it. After
  \<^verbatim>\<open>skip\<close> the same three runs start B, leave the wait at once and return: there is no
  current track and no stream reference, while the transport plays B. In
  \<open>two_track_player\<close> the loop task has been created and has not run yet: after \<^verbatim>\<open>skip\<close> the
  first track A is started and its wait is left at once as well.
\<close>

theorem skip_with_nothing_playing_drops_next_track:
  "(case voice pacing_player of None \<Rightarrow> True | Some v \<Rightarrow> \<not> playing v)
   \<and> queue pacing_player = [example_track ''B'' 200]
   \<and> pos (tasks pacing_player ! 0) = Pacing
   \<and> skip pacing_player = pacing_player\<lparr>stop_event := True\<rparr>
   \<and> exec [RunLoop 0 True 21, RunLoop 0 True 22, RunLoop 0 True 23] pacing_player =
       \<lparr>bot_user = Some 0, queue = [], current = Some (example_track ''B'' 200),
        voice = Some \<lparr>connected = True, playing = True, paused = False, members = Some [0, 7],
                      after = Some 0\<rparr>,
        play_task = Some 0, tasks = [\<lparr>pos = Racing, finished = False\<rparr>], stop_event = False,
        started_at = Some 21, volume = 1,
        pcm = Some \<lparr>source = url (example_track ''B'' 200), pcm_volume = 1\<rparr>,
        last_nonzero_volume = 1, announce_channel = None\<rparr>
   \<and> exec [Skip, RunLoop 0 True 21, RunLoop 0 True 22, RunLoop 0 True 23] pacing_player =
       \<lparr>bot_user = Some 0, queue = [], current = None,
        voice = Some \<lparr>connected = True, playing = True, paused = False, members = Some [0, 7],
                      after = Some 0\<rparr>,
        play_task = Some 0, tasks = [\<lparr>pos = Done, finished = False\<rparr>], stop_event = False,
        started_at = None, volume = 1, pcm = None,
        last_nonzero_volume = 1, announce_channel = None\<rparr>
   \<and> (case voice two_track_player of None \<Rightarrow> True | Some v \<Rightarrow> \<not> playing v)
   \<and> pos (tasks two_track_player ! 0) = NotStarted
   \<and> skip two_track_player = two_track_player\<lparr>stop_event := True\<rparr>
   \<and> current (exec [RunLoop 0 True 10, RunLoop 0 True 11] two_track_player)
        = Some (example_track ''A'' 180)
   \<and> pos (tasks (exec [RunLoop 0 True 10, RunLoop 0 True 11] two_track_player) ! 0) = Racing
   \<and> pos (tasks (exec [Skip, RunLoop 0 True 10, RunLoop 0 True 11] two_track_player) ! 0) = Pacing
   \<and> pcm (exec [Skip, RunLoop 0 True 10, RunLoop 0 True 11] two_track_player) = None
   \<and> voice (exec [Skip, RunLoop 0 True 10, RunLoop 0 True 11] two_track_player)
        = Some \<lparr>connected = True, playing = True, paused = False, members = Some [0, 7],
                 after = Some 0\<rparr>"
  by (simp add: pacing_player_eq two_track_player_eq skip_def loop_eval)

end
